theory Spec2Isabelle
  imports Main "HOL-Library.Sublist"
begin

section \<open>Python strings\<close>

text \<open>
  A Python \<open>str\<close> is a sequence of Unicode code points, so it is modelled as a list of
  naturals. \<open>ascii\<close> turns an ASCII literal of the source into such a list; the emoji of
  the source's messages are written as their code points.
\<close>

type_synonym str = "nat list"

definition ascii :: "string \<Rightarrow> str" where
  "ascii s = map of_char s"

text \<open>
  \<open>str.isspace\<close> for one code point: the code points Python 3 treats as whitespace
  (\<open>str.strip()\<close> without argument removes exactly these at both ends).
\<close>

definition isspace :: "nat \<Rightarrow> bool" where
  "isspace c \<longleftrightarrow>
     (9 \<le> c \<and> c \<le> 13) \<or> (28 \<le> c \<and> c \<le> 32) \<or> c = 133 \<or> c = 160 \<or> c = 5760 \<or>
     (8192 \<le> c \<and> c \<le> 8202) \<or> c = 8232 \<or> c = 8233 \<or> c = 8239 \<or> c = 8287 \<or> c = 12288"

definition str_strip :: "str \<Rightarrow> str" where
  "str_strip s = rev (dropWhile isspace (rev (dropWhile isspace s)))"

text \<open>
  \<open>s.split(sep)\<close> for a separator of one character: the pieces between the occurrences
  of \<open>sep\<close>, empty pieces included; the result is never the empty list.
\<close>

function str_split :: "nat \<Rightarrow> str \<Rightarrow> str list" where
  "str_split sep s =
     (case dropWhile (\<lambda>c. c \<noteq> sep) s of
        [] \<Rightarrow> [s]
      | _ # rest \<Rightarrow> takeWhile (\<lambda>c. c \<noteq> sep) s # str_split sep rest)"
  by pat_completeness auto
termination
proof (relation "measure (\<lambda>(sep, s). length s)")
  show "wf (measure (\<lambda>(sep, s). length s))" by simp
next
  fix sep :: nat and s :: str and x rest
  assume "dropWhile (\<lambda>c. c \<noteq> sep) s = x # rest"
  then have "length rest < length (dropWhile (\<lambda>c. c \<noteq> sep) s)" by simp
  also have "\<dots> \<le> length s" by (rule length_dropWhile_le)
  finally show "((sep, rest), (sep, s)) \<in> measure (\<lambda>(sep, s). length s)" by simp
qed

declare str_split.simps [simp del]

section \<open>Exceptions and the exit status\<close>

text \<open>
  The exceptions the script can meet. All three are subclasses of \<open>Exception\<close>, so the
  \<open>except Exception\<close> of \<open>reset_database\<close> catches each of them. \<open>DriverError m\<close> is an
  exception raised by a call into pymongo, \<open>m\<close> being its text \<open>str(e)\<close>.
\<close>

datatype exn = EOFError | IndexError | DriverError str

fun exn_text :: "exn \<Rightarrow> str" where
  "exn_text EOFError = ascii ''EOF when reading a line''"
| "exn_text IndexError = ascii ''list index out of range''"
| "exn_text (DriverError m) = m"

text \<open>
  How the process ends: \<open>sys.exit(n)\<close>, or an exception that nothing catches (the
  interpreter prints the traceback and the exit status is 1).
\<close>

datatype exit = Exit nat | Uncaught exn

fun exit_code :: "exit \<Rightarrow> nat" where
  "exit_code (Exit n) = n"
| "exit_code (Uncaught e) = 1"

section \<open>The database name\<close>

text \<open>
  \<open>db_name = MONGODB_URI.split('/')[-1].split('?')[0]\<close>. Indexing an empty list raises
  \<open>IndexError\<close>; that branch is kept in the model and shown unreachable below.
\<close>

definition db_name_of :: "str \<Rightarrow> exn + str" where
  "db_name_of uri =
     (case rev (str_split (of_char CHR ''/'') uri) of
        [] \<Rightarrow> Inl IndexError
      | seg # _ \<Rightarrow>
          (case str_split (of_char CHR ''?'') seg of
             [] \<Rightarrow> Inl IndexError
           | name # _ \<Rightarrow> Inr name))"

section \<open>The world of one run\<close>

text \<open>
  pymongo is not part of the repository, so the calls into it are the script's interface
  to the outside. A \<open>call\<close> is one of them:
  \<open>MongoClient(uri)\<close>, \<open>client[db_name]\<close>, \<open>client.admin.command('ping')\<close>,
  \<open>db.list_collection_names()\<close>, \<open>db[collection_name].drop()\<close> and \<open>client.close()\<close>.
\<close>

datatype call =
    MongoClient str
  | GetItem str
  | Ping
  | ListCollectionNames str
  | Drop str str
  | Close

text \<open>
  The behaviour of the driver is a parameter of the model: \<open>drv k c = Some m\<close> says that
  the call \<open>c\<close>, made as the \<open>k\<close>-th driver call of the process (counted from 0), raises an
  exception with text \<open>m\<close>; \<open>None\<close> says that it returns. Any sequence of successes and
  failures is some \<open>drv\<close>.
\<close>

type_synonym driver = "nat \<Rightarrow> call \<Rightarrow> str option"

text \<open>
  What the script writes to standard output: the text of a \<open>print\<close> call, or the prompt
  of an \<open>input\<close> call.
\<close>

datatype out_item = Print str | Prompt str

text \<open>
  The state a run threads through: the server's databases (\<open>store w d\<close> is the list of
  collection names of database \<open>d\<close>, in the order the listing call enumerates them), the
  driver calls made so far with the exception each raised, the output so far, and the
  lines still to be read from standard input.
\<close>

record world =
  store :: "str \<Rightarrow> str list"
  trace :: "(call \<times> str option) list"
  out :: "out_item list"
  stdin :: "str list"

definition start :: "(str \<Rightarrow> str list) \<Rightarrow> str list \<Rightarrow> world" where
  "start st inp = \<lparr>store = st, trace = [], out = [], stdin = inp\<rparr>"

text \<open>
  \<open>print(s)\<close> appends its text to the output (the newline it adds is left out); writing
  to standard output is taken not to fail.
\<close>

definition print :: "str \<Rightarrow> world \<Rightarrow> world" where
  "print s w = w\<lparr>out := out w @ [Print s]\<rparr>"

text \<open>\<open>input(prompt)\<close> writes the prompt and reads one line; at end of input it raises.\<close>

definition input :: "str \<Rightarrow> world \<Rightarrow> (exn + str) \<times> world" where
  "input p w =
     (let w1 = w\<lparr>out := out w @ [Prompt p]\<rparr> in
      case stdin w1 of
        [] \<Rightarrow> (Inl EOFError, w1)
      | l # ls \<Rightarrow> (Inr l, w1\<lparr>stdin := ls\<rparr>))"

text \<open>The effect of a call that returns: only a drop changes the server.\<close>

fun effect :: "call \<Rightarrow> (str \<Rightarrow> str list) \<Rightarrow> (str \<Rightarrow> str list)" where
  "effect (Drop d n) st = st(d := removeAll n (st d))"
| "effect _ st = st"

text \<open>
  One driver call: the driver decides whether it raises, the call and its outcome are
  recorded, and a call that returns has its effect. A drop that raises is taken to leave
  the server as it was.
\<close>

definition invoke :: "driver \<Rightarrow> call \<Rightarrow> world \<Rightarrow> str option \<times> world" where
  "invoke drv c w =
     (let r = drv (length (trace w)) c in
      (r, w\<lparr>trace := trace w @ [(c, r)],
            store := (if r = None then effect c (store w) else store w)\<rparr>))"

text \<open>\<open>client.close()\<close> is taken never to raise.\<close>

definition close :: "world \<Rightarrow> world" where
  "close w = w\<lparr>trace := trace w @ [(Close, None)]\<rparr>"

section \<open>The messages\<close>

definition rule60 :: str where
  "rule60 = replicate 60 (of_char CHR ''='')"

definition nl_rule60 :: str where
  "nl_rule60 = 10 # rule60"

fun str_of_nat :: "nat \<Rightarrow> str" where
  "str_of_nat n = (if n < 10 then [48 + n] else str_of_nat (n div 10) @ [48 + n mod 10])"

declare str_of_nat.simps [simp del]

definition warning_lines :: "str \<Rightarrow> str list" where
  "warning_lines MONGODB_URI =
     [nl_rule60,
      [0x26A0, 0xFE0F] @ ascii ''  WARNING: DATABASE RESET '' @ [0x26A0, 0xFE0F],
      rule60,
      10 # ascii ''This will DELETE ALL DATA from: '' @ MONGODB_URI,
      10 # ascii ''The following collections will be dropped:'',
      ascii ''  - users'',
      ascii ''  - courses'',
      ascii ''  - assignments'',
      ascii ''  - submissions'',
      ascii ''  - enrollments'',
      ascii ''  - messages'',
      ascii ''  - notifications'',
      ascii ''  - And any other collections in the database'',
      nl_rule60]"

definition confirm_prompt :: str where
  "confirm_prompt =
     10 # ascii ''Are you sure you want to proceed? Type '' @ [39] @ ascii ''YES'' @ [39] @
     ascii '' to confirm: ''"

definition connecting_line :: "str \<Rightarrow> str" where
  "connecting_line MONGODB_URI = [10, 0x1F4E1] @ ascii '' Connecting to MongoDB: '' @ MONGODB_URI"

definition connected_line :: str where
  "connected_line = 0x2705 # ascii '' Successfully connected to MongoDB!''"

definition empty_line :: str where
  "empty_line = [10, 0x1F4ED] @ ascii '' Database is already empty. No collections to drop.''"

definition found_line :: "nat \<Rightarrow> str" where
  "found_line n = [10, 0x1F4CB] @ ascii '' Found '' @ str_of_nat n @ ascii '' collection(s):''"

definition item_line :: "str \<Rightarrow> str" where
  "item_line coll = ascii ''   - '' @ coll"

definition dropping_line :: str where
  "dropping_line = [10, 0x1F5D1, 0xFE0F] @ ascii ''  Dropping collections...''"

definition dropped_prefix :: str where
  "dropped_prefix = ascii ''   '' @ [0x2705] @ ascii '' Dropped: ''"

definition dropped_line :: "str \<Rightarrow> str" where
  "dropped_line collection_name = dropped_prefix @ collection_name"

definition complete_lines :: "str \<Rightarrow> str list" where
  "complete_lines db_name =
     [nl_rule60,
      0x2705 # ascii '' DATABASE RESET COMPLETE!'',
      rule60,
      10 # ascii ''All collections in '' @ [39] @ db_name @ [39] @ ascii '' have been dropped.'',
      ascii ''You can now restart your application with a fresh database.'']"

definition error_prefix :: str where
  "error_prefix = [10, 0x274C] @ ascii '' Error: ''"

definition error_line :: "exn \<Rightarrow> str" where
  "error_line e = error_prefix @ exn_text e"

definition closed_line :: str where
  "closed_line = [10, 0x1F4F4] @ ascii '' MongoDB connection closed.''"

definition title_lines :: "str list" where
  "title_lines =
     [nl_rule60,
      ascii ''     EDU-RESOURCE DATABASE RESET UTILITY'',
      rule60]"

definition cancelled_line :: str where
  "cancelled_line = [10, 0x274C] @ ascii '' Operation cancelled.''"

section \<open>The script\<close>

text \<open>\<open>confirm_reset()\<close>: the warning, the prompt, and the comparison with \<open>'YES'\<close>.\<close>

definition confirm_reset :: "str \<Rightarrow> world \<Rightarrow> (exn + bool) \<times> world" where
  "confirm_reset MONGODB_URI w =
     (let w1 = fold print (warning_lines MONGODB_URI) w in
      case input confirm_prompt w1 of
        (Inl e, w2) \<Rightarrow> (Inl e, w2)
      | (Inr response, w2) \<Rightarrow> (Inr (str_strip response = ascii ''YES''), w2))"

text \<open>
  The loop \<open>for collection_name in collections: db[collection_name].drop(); print(...)\<close>.
  An exception leaves the loop at once.
\<close>

fun drop_all :: "driver \<Rightarrow> str \<Rightarrow> str list \<Rightarrow> world \<Rightarrow> str option \<times> world" where
  "drop_all drv db_name [] w = (None, w)"
| "drop_all drv db_name (collection_name # rest) w =
     (case invoke drv (Drop db_name collection_name) w of
        (Some m, w') \<Rightarrow> (Some m, w')
      | (None, w') \<Rightarrow> drop_all drv db_name rest (print (dropped_line collection_name) w'))"

text \<open>
  The body of the \<open>try\<close> of \<open>reset_database()\<close>. It yields the exception raised or the
  value returned, whether the local \<open>client\<close> has been bound (what \<open>'client' in locals()\<close>
  tests in the \<open>finally\<close>), and the world.
\<close>

definition reset_try :: "driver \<Rightarrow> str \<Rightarrow> world \<Rightarrow> (exn + bool) \<times> bool \<times> world" where
  "reset_try drv MONGODB_URI w0 =
     (let w1 = print (connecting_line MONGODB_URI) w0 in
      case invoke drv (MongoClient MONGODB_URI) w1 of
        (Some m, w2) \<Rightarrow> (Inl (DriverError m), False, w2)
      | (None, w2) \<Rightarrow>
      (case db_name_of MONGODB_URI of
        Inl e \<Rightarrow> (Inl e, True, w2)
      | Inr db_name \<Rightarrow>
      (case invoke drv (GetItem db_name) w2 of
        (Some m, w3) \<Rightarrow> (Inl (DriverError m), True, w3)
      | (None, w3) \<Rightarrow>
      (case invoke drv Ping w3 of
        (Some m, w4) \<Rightarrow> (Inl (DriverError m), True, w4)
      | (None, w4) \<Rightarrow>
      (let w5 = print connected_line w4 in
       case invoke drv (ListCollectionNames db_name) w5 of
        (Some m, w6) \<Rightarrow> (Inl (DriverError m), True, w6)
      | (None, w6) \<Rightarrow>
      (let collections = store w6 db_name in
       if collections = [] then (Inr True, True, print empty_line w6)
       else
        (let w7 = print (found_line (length collections)) w6;
             w8 = fold (\<lambda>coll. print (item_line coll)) collections w7;
             w9 = print dropping_line w8
         in case drop_all drv db_name collections w9 of
              (Some m, w10) \<Rightarrow> (Inl (DriverError m), True, w10)
            | (None, w10) \<Rightarrow> (Inr True, True, fold print (complete_lines db_name) w10))))))))"

text \<open>
  \<open>reset_database()\<close>: the \<open>try\<close>, the \<open>except Exception\<close> that prints the error and
  returns \<open>False\<close>, and the \<open>finally\<close> that closes the client if there is one.
\<close>

definition reset_database :: "driver \<Rightarrow> str \<Rightarrow> world \<Rightarrow> bool \<times> world" where
  "reset_database drv MONGODB_URI w =
     (case reset_try drv MONGODB_URI w of
        (r, client_bound, w1) \<Rightarrow>
          (let (success, w2) =
                 (case r of
                    Inl e \<Rightarrow> (False, print (error_line e) w1)
                  | Inr b \<Rightarrow> (b, w1));
               w3 = (if client_bound then print closed_line (close w2) else w2)
           in (success, w3)))"

text \<open>The last two statements of \<open>main()\<close>.\<close>

definition run_reset :: "driver \<Rightarrow> str \<Rightarrow> world \<Rightarrow> exit \<times> world" where
  "run_reset drv MONGODB_URI w =
     (case reset_database drv MONGODB_URI w of
        (success, w') \<Rightarrow> (Exit (if success then 0 else 1), w'))"

text \<open>\<open>force = '--force' in sys.argv or '-f' in sys.argv\<close>\<close>

definition force_flag :: "str list \<Rightarrow> bool" where
  "force_flag argv \<longleftrightarrow> ascii ''--force'' \<in> set argv \<or> ascii ''-f'' \<in> set argv"

text \<open>
  \<open>main()\<close>, given the driver, the module's \<open>MONGODB_URI\<close> and \<open>sys.argv\<close>. The
  \<open>EOFError\<close> of \<open>input\<close> is caught nowhere.
\<close>

definition main :: "driver \<Rightarrow> str \<Rightarrow> str list \<Rightarrow> world \<Rightarrow> exit \<times> world" where
  "main drv MONGODB_URI argv w0 =
     (let w1 = fold print title_lines w0;
          force = force_flag argv
      in if \<not> force then
           (case confirm_reset MONGODB_URI w1 of
              (Inl e, w2) \<Rightarrow> (Uncaught e, w2)
            | (Inr confirmed, w2) \<Rightarrow>
                if \<not> confirmed then (Exit 0, print cancelled_line w2)
                else run_reset drv MONGODB_URI w2)
         else run_reset drv MONGODB_URI w1)"

section \<open>Observing a run\<close>

text \<open>The database name in closed form: what follows the last \<open>/\<close>, up to the first \<open>?\<close>.\<close>

definition tail_name :: "str \<Rightarrow> str" where
  "tail_name uri =
     takeWhile (\<lambda>c. c \<noteq> of_char CHR ''?'')
       (rev (takeWhile (\<lambda>c. c \<noteq> of_char CHR ''/'') (rev uri)))"

text \<open>The texts of the exceptions the driver raised, in order.\<close>

fun raised :: "(call \<times> str option) list \<Rightarrow> str list" where
  "raised [] = []"
| "raised ((c, None) # tr) = raised tr"
| "raised ((c, Some m) # tr) = m # raised tr"

text \<open>The drop calls, each with the collection it names and its outcome, in order.\<close>

fun drops :: "(call \<times> str option) list \<Rightarrow> (str \<times> str option) list" where
  "drops [] = []"
| "drops ((Drop d n, r) # tr) = (n, r) # drops tr"
| "drops (_ # tr) = drops tr"

definition closes :: "(call \<times> str option) list \<Rightarrow> nat" where
  "closes tr = length (filter (\<lambda>cr. fst cr = Close) tr)"

fun is_error_line :: "out_item \<Rightarrow> bool" where
  "is_error_line (Print s) = prefix error_prefix s"
| "is_error_line (Prompt p) = False"

fun is_dropped_line :: "out_item \<Rightarrow> bool" where
  "is_dropped_line (Print s) = prefix dropped_prefix s"
| "is_dropped_line (Prompt p) = False"

fun is_prompt :: "out_item \<Rightarrow> bool" where
  "is_prompt (Print s) = False"
| "is_prompt (Prompt p) = True"

fun lists_or_drops :: "call \<Rightarrow> bool" where
  "lists_or_drops (ListCollectionNames d) = True"
| "lists_or_drops (Drop d n) = True"
| "lists_or_drops _ = False"

fun is_closed_line :: "out_item \<Rightarrow> bool" where
  "is_closed_line (Print s) = (s = closed_line)"
| "is_closed_line (Prompt p) = False"

text \<open>
  \<open>guarded_by e P tr\<close>: reading the calls in order, none that satisfies \<open>P\<close> comes before the
  first occurrence of the event \<open>e\<close>.
\<close>

fun guarded_by :: "(call \<times> str option) \<Rightarrow> (call \<Rightarrow> bool) \<Rightarrow> (call \<times> str option) list \<Rightarrow> bool" where
  "guarded_by e P [] = True"
| "guarded_by e P (x # tr) = (x = e \<or> (\<not> P (fst x) \<and> guarded_by e P tr))"

text \<open>A run of the script as a process: \<open>main\<close> from a fresh world.\<close>

definition run_exit :: "driver \<Rightarrow> str \<Rightarrow> str list \<Rightarrow> (str \<Rightarrow> str list) \<Rightarrow> str list \<Rightarrow> exit" where
  "run_exit drv MONGODB_URI argv st inp = fst (main drv MONGODB_URI argv (start st inp))"

definition run_world :: "driver \<Rightarrow> str \<Rightarrow> str list \<Rightarrow> (str \<Rightarrow> str list) \<Rightarrow> str list \<Rightarrow> world" where
  "run_world drv MONGODB_URI argv st inp = snd (main drv MONGODB_URI argv (start st inp))"

section \<open>The database name as the specification words it\<close>

text \<open>
  The specification says that the database name is "the path segment of the URI, stripped
  of any query-string suffix". \<open>spec_db_name\<close> follows these words for a URI of the form
  \<open>scheme://authority/path?query\<close>: the query is cut off at the first \<open>?\<close>, the scheme and
  its \<open>://\<close> are skipped, and the path is what follows the first \<open>/\<close> after the authority
  (nothing, when there is no such \<open>/\<close>).
\<close>

fun after_scheme :: "str \<Rightarrow> str" where
  "after_scheme (a # b # c # rest) =
     (if a = of_char CHR '':'' \<and> b = of_char CHR ''/'' \<and> c = of_char CHR ''/'' then rest
      else after_scheme (b # c # rest))"
| "after_scheme _ = []"

definition spec_db_name :: "str \<Rightarrow> str" where
  "spec_db_name uri =
     drop 1 (dropWhile (\<lambda>c. c \<noteq> of_char CHR ''/'')
       (after_scheme (takeWhile (\<lambda>c. c \<noteq> of_char CHR ''?'') uri)))"

section \<open>Sample inputs\<close>

definition sample_uri :: str where
  "sample_uri = ascii ''mongodb://localhost:27017/edu-resource''"

definition sample_db :: str where
  "sample_db = ascii ''edu-resource''"

definition sample_store :: "str \<Rightarrow> str list" where
  "sample_store d =
     (if d = sample_db then [ascii ''users'', ascii ''courses'', ascii ''messages''] else [])"

definition empty_store :: "str \<Rightarrow> str list" where
  "empty_store d = []"

definition argv_plain :: "str list" where
  "argv_plain = [ascii ''reset_db.py'']"

definition argv_force :: "str list" where
  "argv_force = [ascii ''reset_db.py'', ascii ''--force'']"

text \<open>A driver that never raises, and one whose \<open>j\<close>-th call raises.\<close>

definition healthy :: driver where
  "healthy k c = None"

definition fails_at :: "nat \<Rightarrow> driver" where
  "fails_at j k c = (if k = j then Some (ascii ''boom'') else None)"



text \<open>
  Sample runs, all with \<open>--force\<close>: no call raises; \<open>MongoClient\<close> raises; the ping
  raises; the second drop raises; no call raises and the database is empty.
\<close>

definition run_healthy :: world where
  "run_healthy = run_world healthy sample_uri argv_force sample_store []"

definition run_connect_fails :: world where
  "run_connect_fails = run_world (fails_at 0) sample_uri argv_force sample_store []"

definition run_ping_down :: world where
  "run_ping_down = run_world (fails_at 2) sample_uri argv_force sample_store []"

definition run_drop_fails :: world where
  "run_drop_fails = run_world (fails_at 5) sample_uri argv_force sample_store []"

definition run_empty :: world where
  "run_empty = run_world healthy sample_uri argv_force empty_store []"

section \<open>Splitting a string\<close>

lemma str_split_nonempty: "str_split sep s \<noteq> []"
  by (subst str_split.simps) (simp split: list.splits)

lemma str_split_last_piece:
  "dropWhile (\<lambda>c. c \<noteq> sep) s = [] \<Longrightarrow> str_split sep s = [s]"
  by (subst str_split.simps) (simp only: list.case)

lemma str_split_next_piece:
  "dropWhile (\<lambda>c. c \<noteq> sep) s = x # rest \<Longrightarrow>
   str_split sep s = takeWhile (\<lambda>c. c \<noteq> sep) s # str_split sep rest"
  by (subst str_split.simps) (simp only: list.case)

lemma hd_str_split: "hd (str_split sep s) = takeWhile (\<lambda>c. c \<noteq> sep) s"
proof (cases "dropWhile (\<lambda>c. c \<noteq> sep) s")
  case Nil
  then have "takeWhile (\<lambda>c. c \<noteq> sep) s = s"
    by (metis append_Nil2 takeWhile_dropWhile_id)
  with Nil show ?thesis by (simp only: str_split_last_piece list.sel)
next
  case (Cons x rest)
  then show ?thesis by (simp only: str_split_next_piece list.sel)
qed

lemma last_str_split: "last (str_split sep s) = rev (takeWhile (\<lambda>c. c \<noteq> sep) (rev s))"
proof (induction sep s rule: str_split.induct)
  case (1 sep s)
  show ?case
  proof (cases "dropWhile (\<lambda>c. c \<noteq> sep) s")
    case Nil
    then have all: "\<forall>c \<in> set s. c \<noteq> sep"
      by (simp add: dropWhile_eq_Nil_conv)
    have "takeWhile (\<lambda>c. c \<noteq> sep) (rev s) = rev s"
      by (rule takeWhile_eq_all_conv [THEN iffD2]) (use all in simp)
    then have tw: "rev (takeWhile (\<lambda>c. c \<noteq> sep) (rev s)) = s"
      by (simp only: rev_rev_ident)
    have sp: "str_split sep s = [s]"
      using Nil by (rule str_split_last_piece)
    show ?thesis unfolding sp tw by simp
  next
    case (Cons x rest)
    then have x: "x = sep"
      by (metis (mono_tags, lifting) hd_dropWhile list.sel(1) list.simps(3))
    define pre where "pre = takeWhile (\<lambda>c. c \<noteq> sep) s"
    have "s = pre @ sep # rest"
      unfolding pre_def using Cons x by (metis takeWhile_dropWhile_id)
    then have rs: "rev s = rev rest @ sep # rev pre" by simp
    have "last (str_split sep s) = last (str_split sep rest)"
      using Cons by (simp add: str_split_next_piece str_split_nonempty)
    also have "\<dots> = rev (takeWhile (\<lambda>c. c \<noteq> sep) (rev rest))"
      using 1 Cons by simp
    also have "takeWhile (\<lambda>c. c \<noteq> sep) (rev rest) = takeWhile (\<lambda>c. c \<noteq> sep) (rev s)"
      unfolding rs by (simp add: takeWhile_append)
    finally show ?thesis .
  qed
qed

lemma db_name_of_eq: "db_name_of uri = Inr (tail_name uri)"
proof -
  obtain segs seg where r: "rev (str_split (of_char CHR ''/'') uri) = seg # segs"
    using str_split_nonempty [of "of_char CHR ''/''" uri] by (cases "rev (str_split (of_char CHR ''/'') uri)") auto
  then have seg: "seg = last (str_split (of_char CHR ''/'') uri)"
    by (metis last_rev list.sel(1) rev_rev_ident)
  obtain name names where n: "str_split (of_char CHR ''?'') seg = name # names"
    using str_split_nonempty [of "of_char CHR ''?''" seg] by (cases "str_split (of_char CHR ''?'') seg") auto
  then have "name = hd (str_split (of_char CHR ''?'') seg)" by simp
  then have "name = tail_name uri"
    by (simp only: tail_name_def seg hd_str_split last_str_split)
  with r n show ?thesis by (simp add: db_name_of_def)
qed


section \<open>The primitives\<close>

lemma print_fields [simp]:
  "store (print s w) = store w"
  "trace (print s w) = trace w"
  "out (print s w) = out w @ [Print s]"
  "stdin (print s w) = stdin w"
  by (simp_all add: print_def)

lemma fold_print_fields [simp]:
  "store (fold (\<lambda>x. print (f x)) xs w) = store w"
  "trace (fold (\<lambda>x. print (f x)) xs w) = trace w"
  "out (fold (\<lambda>x. print (f x)) xs w) = out w @ map (\<lambda>x. Print (f x)) xs"
  "stdin (fold (\<lambda>x. print (f x)) xs w) = stdin w"
  by (induction xs arbitrary: w; simp)+

lemma fold_print_fields' [simp]:
  "store (fold print xs w) = store w"
  "trace (fold print xs w) = trace w"
  "out (fold print xs w) = out w @ map Print xs"
  "stdin (fold print xs w) = stdin w"
  using fold_print_fields [of "\<lambda>x. x" xs w] by simp_all

lemma close_fields [simp]:
  "store (close w) = store w"
  "trace (close w) = trace w @ [(Close, None)]"
  "out (close w) = out w"
  "stdin (close w) = stdin w"
  by (simp_all add: close_def)

lemma invoke_fields [simp]:
  "fst (invoke drv c w) = drv (length (trace w)) c"
  "trace (snd (invoke drv c w)) = trace w @ [(c, drv (length (trace w)) c)]"
  "out (snd (invoke drv c w)) = out w"
  "stdin (snd (invoke drv c w)) = stdin w"
  "store (snd (invoke drv c w)) =
     (if drv (length (trace w)) c = None then effect c (store w) else store w)"
  by (simp_all add: invoke_def Let_def)

lemma invoke_eqD:
  "invoke drv c w = (r, w') \<Longrightarrow>
     drv (length (trace w)) c = r \<and> trace w' = trace w @ [(c, r)] \<and> out w' = out w \<and>
     stdin w' = stdin w \<and> store w' = (if r = None then effect c (store w) else store w)"
  by (auto simp: invoke_def Let_def)

section \<open>The loop\<close>

lemma drop_all_shape:
  "drop_all drv d ns w = (r, w') \<Longrightarrow>
   \<exists>k\<le>length ns.
     stdin w' = stdin w \<and>
     out w' = out w @ map (\<lambda>n. Print (dropped_line n)) (take k ns) \<and>
     store w' = (store w)(d := filter (\<lambda>n. n \<notin> set (take k ns)) (store w d)) \<and>
     (case r of
        None \<Rightarrow> k = length ns \<and> trace w' = trace w @ map (\<lambda>n. (Drop d n, None)) ns
      | Some m \<Rightarrow> k < length ns \<and>
          trace w' = trace w @ map (\<lambda>n. (Drop d n, None)) (take k ns) @ [(Drop d (ns ! k), Some m)])"
proof (induction ns arbitrary: w r w')
  case Nil
  then show ?case by simp
next
  case (Cons n ns)
  obtain r1 w1 where inv: "invoke drv (Drop d n) w = (r1, w1)"
    by (cases "invoke drv (Drop d n) w")
  note f = invoke_eqD [OF inv]
  show ?case
  proof (cases r1)
    case (Some m)
    with Cons.prems inv have "r = Some m" "w' = w1" by auto
    with f Some show ?thesis by (intro exI [of _ 0]) simp
  next
    case None
    let ?w2 = "print (dropped_line n) w1"
    from None Cons.prems inv have "drop_all drv d ns ?w2 = (r, w')" by simp
    from Cons.IH [OF this] obtain k where k: "k \<le> length ns"
      and k_fields: "stdin w' = stdin ?w2"
        "out w' = out ?w2 @ map (\<lambda>n. Print (dropped_line n)) (take k ns)"
        "store w' = (store ?w2)(d := filter (\<lambda>n. n \<notin> set (take k ns)) (store ?w2 d))"
      and k_trace: "(case r of
        None \<Rightarrow> k = length ns \<and> trace w' = trace ?w2 @ map (\<lambda>n. (Drop d n, None)) ns
      | Some m \<Rightarrow> k < length ns \<and>
          trace w' = trace ?w2 @ map (\<lambda>n. (Drop d n, None)) (take k ns) @ [(Drop d (ns ! k), Some m)])"
      by blast
    have st: "store w1 = (store w)(d := removeAll n (store w d))"
      using f None by simp
    have "filter (\<lambda>x. x \<notin> set (take k ns)) (removeAll n (store w d)) =
          filter (\<lambda>x. x \<notin> set (take (Suc k) (n # ns))) (store w d)"
      by (auto simp: removeAll_filter_not_eq intro: filter_cong)
    with k k_fields k_trace f None st show ?thesis
      by (intro exI [of _ "Suc k"]) (auto split: option.splits)
  qed
qed


section \<open>The shape of a reset\<close>

lemma reset_database_cases [consumes 1, case_names connect_raises getitem_raises ping_raises
    list_raises empty drop_raises success]:
  assumes run: "reset_database drv uri w = (ok, w')"
  obtains
    (connect_raises) m where
      "\<not> ok" "stdin w' = stdin w" "store w' = store w"
      "trace w' = trace w @ [(MongoClient uri, Some m)]"
      "out w' = out w @ map Print [connecting_line uri, error_line (DriverError m)]"
  | (getitem_raises) m where
      "\<not> ok" "stdin w' = stdin w" "store w' = store w"
      "trace w' = trace w @
         [(MongoClient uri, None), (GetItem (tail_name uri), Some m), (Close, None)]"
      "out w' = out w @
         map Print [connecting_line uri, error_line (DriverError m), closed_line]"
  | (ping_raises) m where
      "\<not> ok" "stdin w' = stdin w" "store w' = store w"
      "trace w' = trace w @
         [(MongoClient uri, None), (GetItem (tail_name uri), None), (Ping, Some m),
          (Close, None)]"
      "out w' = out w @
         map Print [connecting_line uri, error_line (DriverError m), closed_line]"
  | (list_raises) m where
      "\<not> ok" "stdin w' = stdin w" "store w' = store w"
      "trace w' = trace w @
         [(MongoClient uri, None), (GetItem (tail_name uri), None), (Ping, None),
          (ListCollectionNames (tail_name uri), Some m), (Close, None)]"
      "out w' = out w @
         map Print [connecting_line uri, connected_line, error_line (DriverError m),
                    closed_line]"
  | (empty)
      "store w (tail_name uri) = []"
      "ok" "stdin w' = stdin w" "store w' = store w"
      "trace w' = trace w @
         [(MongoClient uri, None), (GetItem (tail_name uri), None), (Ping, None),
          (ListCollectionNames (tail_name uri), None), (Close, None)]"
      "out w' = out w @
         map Print [connecting_line uri, connected_line, empty_line, closed_line]"
  | (drop_raises) k m where
      "k < length (store w (tail_name uri))"
      "\<not> ok" "stdin w' = stdin w"
      "store w' = (store w)(tail_name uri :=
         filter (\<lambda>n. n \<notin> set (take k (store w (tail_name uri)))) (store w (tail_name uri)))"
      "trace w' = trace w @
         [(MongoClient uri, None), (GetItem (tail_name uri), None), (Ping, None),
          (ListCollectionNames (tail_name uri), None)] @
         map (\<lambda>n. (Drop (tail_name uri) n, None)) (take k (store w (tail_name uri))) @
         [(Drop (tail_name uri) (store w (tail_name uri) ! k), Some m), (Close, None)]"
      "out w' = out w @
         map Print [connecting_line uri, connected_line,
                    found_line (length (store w (tail_name uri)))] @
         map (\<lambda>n. Print (item_line n)) (store w (tail_name uri)) @
         [Print dropping_line] @
         map (\<lambda>n. Print (dropped_line n)) (take k (store w (tail_name uri))) @
         map Print [error_line (DriverError m), closed_line]"
  | (success)
      "store w (tail_name uri) \<noteq> []"
      "ok" "stdin w' = stdin w"
      "store w' = (store w)(tail_name uri := [])"
      "trace w' = trace w @
         [(MongoClient uri, None), (GetItem (tail_name uri), None), (Ping, None),
          (ListCollectionNames (tail_name uri), None)] @
         map (\<lambda>n. (Drop (tail_name uri) n, None)) (store w (tail_name uri)) @
         [(Close, None)]"
      "out w' = out w @
         map Print [connecting_line uri, connected_line,
                    found_line (length (store w (tail_name uri)))] @
         map (\<lambda>n. Print (item_line n)) (store w (tail_name uri)) @
         [Print dropping_line] @
         map (\<lambda>n. Print (dropped_line n)) (store w (tail_name uri)) @
         map Print (complete_lines (tail_name uri)) @ [Print closed_line]"
proof -
  let ?d = "tail_name uri"
  let ?names = "store w ?d"
  let ?w1 = "print (connecting_line uri) w"
  obtain r1 w2 where i1: "invoke drv (MongoClient uri) ?w1 = (r1, w2)"
    by (cases "invoke drv (MongoClient uri) ?w1")
  note f1 = invoke_eqD [OF i1]
  show thesis
  proof (cases r1)
    case (Some m)
    with run i1 have "\<not> ok" "w' = print (error_line (DriverError m)) w2"
      by (simp_all add: reset_database_def reset_try_def)
    with f1 Some show thesis by (intro connect_raises [of m]) simp_all
  next
    case c1: None
    obtain r2 w3 where i2: "invoke drv (GetItem ?d) w2 = (r2, w3)"
      by (cases "invoke drv (GetItem ?d) w2")
    note f2 = invoke_eqD [OF i2]
    show thesis
    proof (cases r2)
      case (Some m)
      with run i1 i2 c1 have "\<not> ok"
        "w' = print closed_line (close (print (error_line (DriverError m)) w3))"
        by (simp_all add: reset_database_def reset_try_def db_name_of_eq)
      with f1 f2 c1 Some show thesis by (intro getitem_raises [of m]) simp_all
    next
      case c2: None
      obtain r3 w4 where i3: "invoke drv Ping w3 = (r3, w4)"
        by (cases "invoke drv Ping w3")
      note f3 = invoke_eqD [OF i3]
      show thesis
      proof (cases r3)
        case (Some m)
        with run i1 i2 i3 c1 c2 have "\<not> ok"
          "w' = print closed_line (close (print (error_line (DriverError m)) w4))"
          by (simp_all add: reset_database_def reset_try_def db_name_of_eq)
        with f1 f2 f3 c1 c2 Some show thesis by (intro ping_raises [of m]) simp_all
      next
        case c3: None
        let ?w5 = "print connected_line w4"
        obtain r4 w6 where i4: "invoke drv (ListCollectionNames ?d) ?w5 = (r4, w6)"
          by (cases "invoke drv (ListCollectionNames ?d) ?w5")
        note f4 = invoke_eqD [OF i4]
        show thesis
        proof (cases r4)
          case (Some m)
          with run i1 i2 i3 i4 c1 c2 c3 have "\<not> ok"
            "w' = print closed_line (close (print (error_line (DriverError m)) w6))"
            by (simp_all add: reset_database_def reset_try_def db_name_of_eq Let_def)
          with f1 f2 f3 f4 c1 c2 c3 Some show thesis by (intro list_raises [of m]) simp_all
        next
          case c4: None
          have st6: "store w6 = store w"
            using f1 f2 f3 f4 c1 c2 c3 c4 by simp
          show thesis
          proof (cases "?names = []")
            case True
            with run i1 i2 i3 i4 c1 c2 c3 c4 st6 have "ok"
              "w' = print closed_line (close (print empty_line w6))"
              by (simp_all add: reset_database_def reset_try_def db_name_of_eq Let_def)
            with f1 f2 f3 f4 c1 c2 c3 c4 True show thesis by (intro empty) simp_all
          next
            case False
            let ?w9 = "print dropping_line
              (fold (\<lambda>coll. print (item_line coll)) ?names
                (print (found_line (length ?names)) w6))"
            obtain r5 w10 where i5: "drop_all drv ?d ?names ?w9 = (r5, w10)"
              by (cases "drop_all drv ?d ?names ?w9")
            from drop_all_shape [OF i5] obtain k where k: "k \<le> length ?names"
              and k_fields: "stdin w10 = stdin ?w9"
                "out w10 = out ?w9 @ map (\<lambda>n. Print (dropped_line n)) (take k ?names)"
                "store w10 = (store ?w9)(?d := filter (\<lambda>n. n \<notin> set (take k ?names)) (store ?w9 ?d))"
              and k_trace: "(case r5 of
                  None \<Rightarrow> k = length ?names \<and>
                    trace w10 = trace ?w9 @ map (\<lambda>n. (Drop ?d n, None)) ?names
                | Some m \<Rightarrow> k < length ?names \<and>
                    trace w10 = trace ?w9 @ map (\<lambda>n. (Drop ?d n, None)) (take k ?names) @
                      [(Drop ?d (?names ! k), Some m)])"
              by blast
            show thesis
            proof (cases r5)
              case (Some m)
              with run i1 i2 i3 i4 i5 c1 c2 c3 c4 st6 False have "\<not> ok"
                "w' = print closed_line (close (print (error_line (DriverError m)) w10))"
                by (simp_all add: reset_database_def reset_try_def db_name_of_eq Let_def)
              with f1 f2 f3 f4 c1 c2 c3 c4 st6 k k_fields k_trace Some show thesis
                by (intro drop_raises [of k m]) simp_all
            next
              case None
              with run i1 i2 i3 i4 i5 c1 c2 c3 c4 st6 False have "ok"
                "w' = print closed_line (close (fold print (complete_lines ?d) w10))"
                by (simp_all add: reset_database_def reset_try_def db_name_of_eq Let_def)
              moreover have "filter (\<lambda>n. n \<notin> set ?names) ?names = []"
                by (simp add: filter_empty_conv)
              ultimately show thesis
                using f1 f2 f3 f4 c1 c2 c3 c4 st6 k k_fields k_trace None False
                by (intro success) simp_all
            qed
          qed
        qed
      qed
    qed
  qed
qed


section \<open>The shape of main\<close>

lemma main_cases [consumes 1, case_names eof cancelled confirmed forced]:
  assumes run: "main drv uri argv w = (ex, w')"
  obtains
    (eof)
      "\<not> force_flag argv" "stdin w = []" "ex = Uncaught EOFError"
      "store w' = store w" "trace w' = trace w" "stdin w' = []"
      "out w' = out w @ map Print (title_lines @ warning_lines uri) @ [Prompt confirm_prompt]"
  | (cancelled) response rest where
      "\<not> force_flag argv" "stdin w = response # rest" "str_strip response \<noteq> ascii ''YES''"
      "ex = Exit 0" "store w' = store w" "trace w' = trace w" "stdin w' = rest"
      "out w' = out w @ map Print (title_lines @ warning_lines uri) @
                [Prompt confirm_prompt, Print cancelled_line]"
  | (confirmed) response rest w1 ok where
      "\<not> force_flag argv" "stdin w = response # rest" "str_strip response = ascii ''YES''"
      "store w1 = store w" "trace w1 = trace w" "stdin w1 = rest"
      "out w1 = out w @ map Print (title_lines @ warning_lines uri) @ [Prompt confirm_prompt]"
      "reset_database drv uri w1 = (ok, w')" "ex = Exit (if ok then 0 else 1)"
  | (forced) w1 ok where
      "force_flag argv"
      "store w1 = store w" "trace w1 = trace w" "stdin w1 = stdin w"
      "out w1 = out w @ map Print title_lines"
      "reset_database drv uri w1 = (ok, w')" "ex = Exit (if ok then 0 else 1)"
proof (cases "force_flag argv")
  case True
  let ?w1 = "fold print title_lines w"
  obtain ok w2 where r: "reset_database drv uri ?w1 = (ok, w2)"
    by (cases "reset_database drv uri ?w1")
  with run True have "ex = Exit (if ok then 0 else 1)" "w' = w2"
    by (simp_all add: main_def run_reset_def)
  with r True show thesis by (intro forced [of ?w1 ok]) simp_all
next
  case False
  let ?w1 = "fold print (warning_lines uri) (fold print title_lines w)"
  let ?wp = "?w1\<lparr>out := out ?w1 @ [Prompt confirm_prompt]\<rparr>"
  show thesis
  proof (cases "stdin w")
    case Nil
    with run False have "ex = Uncaught EOFError" "w' = ?wp"
      by (simp_all add: main_def confirm_reset_def input_def)
    with False Nil show thesis by (intro eof) simp_all
  next
    case (Cons response rest)
    let ?w2 = "?wp\<lparr>stdin := rest\<rparr>"
    have c: "confirm_reset uri (fold print title_lines w) =
             (Inr (str_strip response = ascii ''YES''), ?w2)"
      using Cons by (simp add: confirm_reset_def input_def)
    show thesis
    proof (cases "str_strip response = ascii ''YES''")
      case no: False
      with run False c have "ex = Exit 0" "w' = print cancelled_line ?w2"
        by (simp_all add: main_def)
      with False Cons no show thesis by (intro cancelled [of response rest]) simp_all
    next
      case yes: True
      obtain ok w3 where r: "reset_database drv uri ?w2 = (ok, w3)"
        by (cases "reset_database drv uri ?w2")
      with run False c yes have "ex = Exit (if ok then 0 else 1)" "w' = w3"
        by (simp_all add: main_def run_reset_def)
      with r False Cons yes show thesis
        by (intro confirmed [of response rest ?w2 ok]) simp_all
    qed
  qed
qed


section \<open>Telling the lines apart\<close>

lemma rule60_Cons: "rule60 = 61 # replicate 59 61"
  by (simp add: rule60_def numeral_eq_Suc)

lemma filter_map_none: "(\<And>x. \<not> P (f x)) \<Longrightarrow> filter P (map f xs) = []"
  by (induction xs) simp_all

lemma filter_map_all: "(\<And>x. P (f x)) \<Longrightarrow> filter P (map f xs) = map f xs"
  by (induction xs) simp_all

lemmas line_defs =
  connecting_line_def connected_line_def empty_line_def found_line_def item_line_def
  dropping_line_def dropped_line_def dropped_prefix_def closed_line_def cancelled_line_def
  error_line_def error_prefix_def title_lines_def warning_lines_def complete_lines_def
  nl_rule60_def rule60_Cons ascii_def

lemma error_line_only [simp]:
  "prefix error_prefix (error_line e)"
  "\<not> prefix error_prefix (connecting_line uri)"
  "\<not> prefix error_prefix connected_line"
  "\<not> prefix error_prefix empty_line"
  "\<not> prefix error_prefix (found_line n)"
  "\<not> prefix error_prefix (item_line c)"
  "\<not> prefix error_prefix dropping_line"
  "\<not> prefix error_prefix (dropped_line c)"
  "\<not> prefix error_prefix closed_line"
  "\<not> prefix error_prefix cancelled_line"
  "filter is_error_line (map Print title_lines) = []"
  "filter is_error_line (map Print (warning_lines uri)) = []"
  "filter is_error_line (map Print (complete_lines d)) = []"
  by (simp_all add: line_defs)

lemma error_line_maps [simp]:
  "filter is_error_line (map (\<lambda>n. Print (item_line n)) ns) = []"
  "filter is_error_line (map (\<lambda>n. Print (dropped_line n)) ns) = []"
  by (rule filter_map_none; simp)+

lemma dropped_line_only [simp]:
  "prefix dropped_prefix (dropped_line c)"
  "\<not> prefix dropped_prefix (error_line e)"
  "\<not> prefix dropped_prefix (connecting_line uri)"
  "\<not> prefix dropped_prefix connected_line"
  "\<not> prefix dropped_prefix empty_line"
  "\<not> prefix dropped_prefix (found_line n)"
  "\<not> prefix dropped_prefix (item_line c)"
  "\<not> prefix dropped_prefix dropping_line"
  "\<not> prefix dropped_prefix closed_line"
  "\<not> prefix dropped_prefix cancelled_line"
  "filter is_dropped_line (map Print title_lines) = []"
  "filter is_dropped_line (map Print (warning_lines uri)) = []"
  "filter is_dropped_line (map Print (complete_lines d)) = []"
  by (simp_all add: line_defs)

lemma dropped_line_maps [simp]:
  "filter is_dropped_line (map (\<lambda>n. Print (item_line n)) ns) = []"
  "filter is_dropped_line (map (\<lambda>n. Print (dropped_line n)) ns) =
     map (\<lambda>n. Print (dropped_line n)) ns"
  by (rule filter_map_none filter_map_all; simp)+

lemma closed_line_only [simp]:
  "error_line e \<noteq> closed_line"
  "connecting_line uri \<noteq> closed_line"
  "connected_line \<noteq> closed_line"
  "empty_line \<noteq> closed_line"
  "found_line n \<noteq> closed_line"
  "item_line c \<noteq> closed_line"
  "dropping_line \<noteq> closed_line"
  "dropped_line c \<noteq> closed_line"
  "cancelled_line \<noteq> closed_line"
  "filter is_closed_line (map Print title_lines) = []"
  "filter is_closed_line (map Print (warning_lines uri)) = []"
  "filter is_closed_line (map Print (complete_lines d)) = []"
  by (simp_all add: line_defs)

lemma closed_line_maps [simp]:
  "filter is_closed_line (map (\<lambda>n. Print (item_line n)) ns) = []"
  "filter is_closed_line (map (\<lambda>n. Print (dropped_line n)) ns) = []"
  by (rule filter_map_none; simp)+

lemma prompt_maps [simp]:
  "filter is_prompt (map Print ls) = []"
  "filter is_prompt (map (\<lambda>n. Print (f n)) ns) = []"
  by (rule filter_map_none; simp)+


section \<open>Consequences shared by the claims\<close>

lemma start_fields [simp]:
  "store (start st inp) = st"
  "trace (start st inp) = []"
  "out (start st inp) = []"
  "stdin (start st inp) = inp"
  by (simp_all add: start_def)

lemma run_eq:
  "main drv uri argv (start st inp) =
     (run_exit drv uri argv st inp, run_world drv uri argv st inp)"
  by (simp add: run_exit_def run_world_def)

lemma force_flag_nth:
  "force_flag argv \<longleftrightarrow>
     (\<exists>i<length argv. argv ! i = ascii ''--force'' \<or> argv ! i = ascii ''-f'')"
  by (auto simp: force_flag_def in_set_conv_nth)

lemma reset_database_quiet:
  assumes "reset_database drv uri w = (ok, w')"
  shows "filter is_prompt (out w') = filter is_prompt (out w)" and "stdin w' = stdin w"
    and "trace w' \<noteq> trace w"
  using assms by (cases rule: reset_database_cases; simp)+

lemma prompt_iff_not_forced:
  "(filter is_prompt (out (run_world drv uri argv st inp)) = []) = force_flag argv"
  using run_eq [of drv uri argv st inp]
proof (cases rule: main_cases)
  case (confirmed response rest w1 ok)
  with reset_database_quiet(1) [OF confirmed(8)] show ?thesis by simp
next
  case (forced w1 ok)
  with reset_database_quiet(1) [OF forced(6)] show ?thesis by simp
qed simp_all

lemma run_exit_cases:
  "run_exit drv uri argv st inp \<in> {Exit 0, Exit 1, Uncaught EOFError}"
  using run_eq [of drv uri argv st inp] by (cases rule: main_cases) simp_all

section \<open>Reading the trace\<close>

lemma raised_append [simp]: "raised (a @ b) = raised a @ raised b"
  by (induction a rule: raised.induct) simp_all

lemma raised_returned [simp]: "raised (map (\<lambda>n. (Drop d n, None)) ns) = []"
  by (induction ns) simp_all

lemma drops_append [simp]: "drops (a @ b) = drops a @ drops b"
  by (induction a rule: drops.induct) simp_all

lemma drops_returned [simp]:
  "drops (map (\<lambda>n. (Drop d n, None)) ns) = map (\<lambda>n. (n, None)) ns"
  by (induction ns) simp_all

lemma closes_simps [simp]:
  "closes [] = 0"
  "closes ((c, r) # tr) = (if c = Close then Suc (closes tr) else closes tr)"
  "closes (a @ b) = closes a + closes b"
  "closes (map (\<lambda>n. (Drop d n, None)) ns) = 0"
  by (simp_all add: closes_def filter_map_none)

lemma guarded_by_nth:
  "guarded_by e P tr \<Longrightarrow> \<not> P (fst e) \<Longrightarrow> i < length tr \<Longrightarrow> P (fst (tr ! i)) \<Longrightarrow>
   \<exists>j<i. tr ! j = e"
proof (induction tr arbitrary: i)
  case Nil
  then show ?case by simp
next
  case (Cons x tr)
  show ?case
  proof (cases "x = e")
    case True
    with Cons.prems show ?thesis
      by (cases i) auto
  next
    case False
    with Cons.prems obtain i' where i: "i = Suc i'"
      by (cases i) auto
    with Cons.prems False have "\<exists>j<i'. tr ! j = e"
      by (intro Cons.IH) auto
    then obtain j where "j < i'" "tr ! j = e" by blast
    with i show ?thesis by (intro exI [of _ "Suc j"]) simp
  qed
qed

section \<open>The shape of a run\<close>

lemma run_cases [consumes 1, case_names eof cancelled reset]:
  assumes W: "W = run_world drv uri argv st inp"
  obtains
    (eof)
      "\<not> force_flag argv" "inp = []"
      "run_exit drv uri argv st inp = Uncaught EOFError"
      "store W = st" "trace W = []"
      "filter is_error_line (out W) = []"
      "filter is_dropped_line (out W) = []"
      "filter is_closed_line (out W) = []"
  | (cancelled) response rest where
      "\<not> force_flag argv" "inp = response # rest" "str_strip response \<noteq> ascii ''YES''"
      "run_exit drv uri argv st inp = Exit 0"
      "store W = st" "trace W = []"
      "filter is_error_line (out W) = []"
      "filter is_dropped_line (out W) = []"
      "filter is_closed_line (out W) = []"
  | (reset) w1 ok where
      "force_flag argv \<or> (\<exists>response rest. inp = response # rest \<and> str_strip response = ascii ''YES'')"
      "store w1 = st" "trace w1 = []"
      "filter is_error_line (out w1) = []"
      "filter is_dropped_line (out w1) = []"
      "filter is_closed_line (out w1) = []"
      "reset_database drv uri w1 = (ok, W)"
      "run_exit drv uri argv st inp = Exit (if ok then 0 else 1)"
  using run_eq [of drv uri argv st inp, folded W]
proof (cases rule: main_cases)
  case eof
  then show ?thesis by (intro that(1)) (simp_all add: line_defs)
next
  case (cancelled response rest)
  then show ?thesis by (intro that(2) [of response rest]) (simp_all add: line_defs)
next
  case (confirmed response rest w1 ok)
  then show ?thesis by (intro that(3) [of w1 ok]) (simp_all add: line_defs)
next
  case (forced w1 ok)
  then show ?thesis by (intro that(3) [of w1 ok]) (simp_all add: line_defs)
qed

lemma error_line_driver [simp]: "error_line (DriverError m) = error_prefix @ m"
  by (simp add: error_line_def)

lemma error_text_other [simp]:
  "error_prefix @ m \<noteq> closed_line"
  "\<not> prefix dropped_prefix (error_prefix @ m)"
  by (simp_all add: line_defs)

lemma reset_database_raised:
  "fst (reset_database drv uri w) =
     (raised (trace (snd (reset_database drv uri w))) = raised (trace w))"
proof -
  obtain ok w' where r: "reset_database drv uri w = (ok, w')"
    by (cases "reset_database drv uri w")
  then have "ok = (raised (trace w') = raised (trace w))"
    by (cases rule: reset_database_cases) simp_all
  with r show ?thesis by simp
qed

lemma run_guarded:
  assumes W: "W = run_world drv uri argv st inp"
  shows "guarded_by (Ping, None) lists_or_drops (trace W)"
    and "guarded_by (MongoClient uri, None) (\<lambda>c. c = Ping) (trace W)"
proof -
  show "guarded_by (Ping, None) lists_or_drops (trace W)"
  proof (use W in \<open>cases rule: run_cases\<close>)
    case (reset w1 ok)
    from reset(7) show ?thesis
      by (cases rule: reset_database_cases) (simp_all add: reset)
  qed simp_all
  show "guarded_by (MongoClient uri, None) (\<lambda>c. c = Ping) (trace W)"
  proof (use W in \<open>cases rule: run_cases\<close>)
    case (reset w1 ok)
    from reset(7) show ?thesis
      by (cases rule: reset_database_cases) (simp_all add: reset)
  qed simp_all
qed

section \<open>The sample runs\<close>

lemma sample_db_name: "db_name_of sample_uri = Inr sample_db"
  by (simp add: db_name_of_eq tail_name_def sample_uri_def sample_db_def ascii_def)

lemmas run_defs =
  run_world_def run_exit_def main_def run_reset_def reset_database_def reset_try_def
  force_flag_def argv_force_def argv_plain_def invoke_def fails_at_def healthy_def Let_def
  sample_db_name sample_store_def empty_store_def

lemma trace_run_healthy:
  "trace run_healthy =
     [(MongoClient sample_uri, None), (GetItem sample_db, None), (Ping, None),
      (ListCollectionNames sample_db, None),
      (Drop sample_db (ascii ''users''), None), (Drop sample_db (ascii ''courses''), None),
      (Drop sample_db (ascii ''messages''), None), (Close, None)]"
  by (simp add: run_healthy_def run_defs)

lemma trace_run_connect_fails:
  "trace run_connect_fails = [(MongoClient sample_uri, Some (ascii ''boom''))]"
  by (simp add: run_connect_fails_def run_defs)

lemma trace_run_ping_down:
  "trace run_ping_down =
     [(MongoClient sample_uri, None), (GetItem sample_db, None),
      (Ping, Some (ascii ''boom'')), (Close, None)]"
  by (simp add: run_ping_down_def run_defs)

lemma trace_run_drop_fails:
  "trace run_drop_fails =
     [(MongoClient sample_uri, None), (GetItem sample_db, None), (Ping, None),
      (ListCollectionNames sample_db, None),
      (Drop sample_db (ascii ''users''), None),
      (Drop sample_db (ascii ''courses''), Some (ascii ''boom'')), (Close, None)]"
  by (simp add: run_drop_fails_def run_defs)

lemma trace_run_empty:
  "trace run_empty =
     [(MongoClient sample_uri, None), (GetItem sample_db, None), (Ping, None),
      (ListCollectionNames sample_db, None), (Close, None)]"
  by (simp add: run_empty_def run_defs)

lemma out_run_connect_fails:
  "out run_connect_fails =
     map Print (title_lines @ [connecting_line sample_uri, error_prefix @ ascii ''boom''])"
  by (simp add: run_connect_fails_def run_defs)


lemma db_name_with_query:
  "db_name_of (ascii ''mongodb://localhost:27017/edu-resource?opt=1'') =
     Inr (ascii ''edu-resource'') \<and>
   spec_db_name (ascii ''mongodb://localhost:27017/edu-resource?opt=1'') = ascii ''edu-resource''"
  by (simp add: db_name_of_eq tail_name_def spec_db_name_def ascii_def)

lemma db_name_of_path_uri:
  assumes "of_char CHR ''/'' \<notin> set name" "of_char CHR ''?'' \<notin> set name"
    and "of_char CHR ''/'' \<notin> set query"
    and "query = [] \<or> hd query = of_char CHR ''?''"
  shows "db_name_of (front @ [of_char CHR ''/''] @ name @ query) = Inr name"
proof -
  let ?sl = "of_char CHR ''/'' :: nat" and ?q = "of_char CHR ''?'' :: nat"
  have "takeWhile (\<lambda>c. c \<noteq> ?sl) (rev (front @ [?sl] @ name @ query)) = rev query @ rev name"
    using assms(1,3) by (simp add: takeWhile_append)
  then have "tail_name (front @ [?sl] @ name @ query) = takeWhile (\<lambda>c. c \<noteq> ?q) (name @ query)"
    unfolding tail_name_def by simp
  also have "\<dots> = name"
    using assms(2,4) by (cases query) (auto simp: takeWhile_append)
  finally show ?thesis by (simp add: db_name_of_eq)
qed

section \<open>The claims\<close>






text \<open>
  C3. In every run at most one driver call raised; the lines that start with the error
  prefix are exactly one line per exception raised, carrying its text, so that no other
  line of the transcript starts with that prefix; unless the prompt met the end of the
  input, the process exits with code 1 if a call raised and with code 0 otherwise (a run
  that succeeded or was cancelled). \<open>reset_database\<close> returns \<open>True\<close> exactly when no
  call of its own raised.
\<close>

theorem driver_errors_caught_once:
  assumes W: "W = run_world drv uri argv st inp"
  shows "length (raised (trace W)) \<le> 1 \<and>
         filter is_error_line (out W) = map (\<lambda>m. Print (error_prefix @ m)) (raised (trace W)) \<and>
         run_exit drv uri argv st inp =
           (if \<not> force_flag argv \<and> inp = [] then Uncaught EOFError
            else Exit (if raised (trace W) = [] then 0 else 1)) \<and>
         fst (reset_database drv uri w) =
           (raised (trace (snd (reset_database drv uri w))) = raised (trace w))"
proof -
  have "length (raised (trace W)) \<le> 1 \<and>
         filter is_error_line (out W) = map (\<lambda>m. Print (error_prefix @ m)) (raised (trace W)) \<and>
         run_exit drv uri argv st inp =
           (if \<not> force_flag argv \<and> inp = [] then Uncaught EOFError
            else Exit (if raised (trace W) = [] then 0 else 1))"
  proof (use W in \<open>cases rule: run_cases\<close>)
    case eof
    then show ?thesis by simp
  next
    case (cancelled response rest)
    then show ?thesis by simp
  next
    case (reset w1 ok)
    from reset(1) have "\<not> (\<not> force_flag argv \<and> inp = [])" by auto
    with reset(7) show ?thesis
      by (cases rule: reset_database_cases) (simp_all add: reset(2-6,8))
  qed
  with reset_database_raised show ?thesis by blast
qed

theorem driver_errors_caught_once_witness:
  "run_ping_down = run_world (fails_at 2) sample_uri argv_force sample_store [] \<and>
   raised (trace run_ping_down) = [ascii ''boom''] \<and>
   length (raised (trace run_ping_down)) \<le> 1 \<and>
   filter is_error_line (out run_ping_down) = [Print (error_prefix @ ascii ''boom'')] \<and>
   run_exit (fails_at 2) sample_uri argv_force sample_store [] = Exit 1 \<and>
   fst (reset_database (fails_at 2) sample_uri (start sample_store [])) =
     (raised (trace (snd (reset_database (fails_at 2) sample_uri (start sample_store [])))) =
      raised (trace (start sample_store []))) \<and>
   run_healthy = run_world healthy sample_uri argv_force sample_store [] \<and>
   raised (trace run_healthy) = [] \<and>
   filter is_error_line (out run_healthy) = [] \<and>
   run_exit healthy sample_uri argv_force sample_store [] = Exit 0"
proof -
  have W: "run_ping_down = run_world (fails_at 2) sample_uri argv_force sample_store []"
    by (simp add: run_ping_down_def)
  have W': "run_healthy = run_world healthy sample_uri argv_force sample_store []"
    by (simp add: run_healthy_def)
  have a: "force_flag argv_force"
    by (simp add: force_flag_def argv_force_def)
  have r: "raised (trace run_ping_down) = [ascii ''boom'']"
    and r': "raised (trace run_healthy) = []"
    by (simp_all add: trace_run_ping_down trace_run_healthy)
  from driver_errors_caught_once [OF W, of "start sample_store []"]
    driver_errors_caught_once [OF W', of "start sample_store []"] W W' a r r'
  show ?thesis by simp
qed

text \<open>
  C4, as amended. In every run, whatever the database lookup, the ping, the listing and
  the drops did, the close step is executed exactly once if the \<open>MongoClient\<close> constructor
  returned and not at all otherwise, and the confirmation line is printed once per close.
  (When the constructor raises there is no client, and the \<open>finally\<close> skips the close:
  see the counterexample.)
\<close>

theorem close_once_if_client_bound:
  assumes W: "W = run_world drv uri argv st inp"
  shows "closes (trace W) = (if (MongoClient uri, None) \<in> set (trace W) then 1 else 0) \<and>
         filter is_closed_line (out W) = replicate (closes (trace W)) (Print closed_line)"
proof (use W in \<open>cases rule: run_cases\<close>)
  case eof
  then show ?thesis by simp
next
  case (cancelled response rest)
  then show ?thesis by simp
next
  case (reset w1 ok)
  from reset(7) show ?thesis
    by (cases rule: reset_database_cases) (auto simp: reset)
qed

theorem close_once_if_client_bound_witness:
  "run_healthy = run_world healthy sample_uri argv_force sample_store [] \<and>
   (MongoClient sample_uri, None) \<in> set (trace run_healthy) \<and>
   closes (trace run_healthy) = 1 \<and>
   filter is_closed_line (out run_healthy) = [Print closed_line] \<and>
   run_connect_fails = run_world (fails_at 0) sample_uri argv_force sample_store [] \<and>
   (MongoClient sample_uri, None) \<notin> set (trace run_connect_fails) \<and>
   closes (trace run_connect_fails) = 0 \<and>
   filter is_closed_line (out run_connect_fails) = []"
proof -
  have W: "run_healthy = run_world healthy sample_uri argv_force sample_store []"
    by (simp add: run_healthy_def)
  have W': "run_connect_fails = run_world (fails_at 0) sample_uri argv_force sample_store []"
    by (simp add: run_connect_fails_def)
  have b: "(MongoClient sample_uri, None) \<in> set (trace run_healthy)"
    by (simp add: trace_run_healthy)
  have nb: "(MongoClient sample_uri, None) \<notin> set (trace run_connect_fails)"
    by (simp add: trace_run_connect_fails)
  from close_once_if_client_bound [OF W] close_once_if_client_bound [OF W'] W W' b nb
  show ?thesis by simp
qed

text \<open>
  C4 as stated fails when the connect step raises: the error is reported, no close call
  is made and no confirmation line is printed.
\<close>

theorem close_skipped_counterexample:
  "raised (trace run_connect_fails) = [ascii ''boom''] \<and>
   closes (trace run_connect_fails) \<noteq> 1 \<and>
   filter is_closed_line (out run_connect_fails) = []"
  by (simp add: trace_run_connect_fails out_run_connect_fails)



text \<open>
  C6. If the listing call returned and the database holds no collection, then no drop is
  invoked, the line saying that the database is already empty is printed,
  \<open>reset_database\<close> returns \<open>True\<close>, the process exits with code 0, and the server is
  as it was.
\<close>

theorem empty_database_is_success:
  assumes W: "W = run_world drv uri argv st inp"
    and d: "db_name_of uri = Inr d"
    and none: "st d = []"
    and listed: "(ListCollectionNames d, None) \<in> set (trace W)"
  shows "drops (trace W) = [] \<and> Print empty_line \<in> set (out W) \<and>
         (\<exists>w1. store w1 = st \<and> trace w1 = [] \<and> reset_database drv uri w1 = (True, W)) \<and>
         run_exit drv uri argv st inp = Exit 0 \<and> store W = st"
proof -
  from d have d': "tail_name uri = d" by (simp add: db_name_of_eq)
  show ?thesis
  proof (use W in \<open>cases rule: run_cases\<close>)
    case eof
    with listed show ?thesis by simp
  next
    case (cancelled response rest)
    with listed show ?thesis by simp
  next
    case (reset w1 ok)
    note r = reset(7)
    from r show ?thesis
    proof (cases rule: reset_database_cases)
      case empty
      with reset r show ?thesis by auto
    qed (use listed none d' reset in auto)
  qed
qed

theorem empty_database_is_success_witness:
  "run_empty = run_world healthy sample_uri argv_force empty_store [] \<and>
   db_name_of sample_uri = Inr sample_db \<and>
   empty_store sample_db = [] \<and>
   (ListCollectionNames sample_db, None) \<in> set (trace run_empty) \<and>
   drops (trace run_empty) = [] \<and> Print empty_line \<in> set (out run_empty) \<and>
   (\<exists>w1. store w1 = empty_store \<and> trace w1 = [] \<and>
         reset_database healthy sample_uri w1 = (True, run_empty)) \<and>
   run_exit healthy sample_uri argv_force empty_store [] = Exit 0 \<and>
   store run_empty = empty_store"
proof -
  have W: "run_empty = run_world healthy sample_uri argv_force empty_store []"
    by (simp add: run_empty_def)
  have e: "empty_store sample_db = []"
    by (simp add: empty_store_def)
  have l: "(ListCollectionNames sample_db, None) \<in> set (trace run_empty)"
    by (simp add: trace_run_empty)
  from empty_database_is_success [OF W sample_db_name e l] W sample_db_name e l
  show ?thesis by blast
qed

text \<open>
  C7. In every run the ping is made once the client and the database handle are there,
  each listing or drop call comes after a ping that returned, and each ping comes after a
  \<open>MongoClient\<close> call that returned. If the ping raised, then no drop
  was invoked and the server is as it was, the error is printed, the process exits with
  code 1, and the close step still ran once and printed its line.
\<close>

theorem ping_guards_the_database:
  assumes W: "W = run_world drv uri argv st inp"
  shows "((GetItem d, None) \<in> set (trace W) \<longrightarrow> (\<exists>r. (Ping, r) \<in> set (trace W))) \<and>
         (\<forall>i<length (trace W). lists_or_drops (fst (trace W ! i)) \<longrightarrow>
            (\<exists>j<i. trace W ! j = (Ping, None))) \<and>
         (\<forall>i<length (trace W). fst (trace W ! i) = Ping \<longrightarrow>
            (\<exists>j<i. trace W ! j = (MongoClient uri, None))) \<and>
         ((Ping, Some m) \<in> set (trace W) \<longrightarrow>
            drops (trace W) = [] \<and> store W = st \<and>
            filter is_error_line (out W) = [Print (error_prefix @ m)] \<and>
            run_exit drv uri argv st inp = Exit 1 \<and>
            closes (trace W) = 1 \<and>
            filter is_closed_line (out W) = [Print closed_line])"
proof (intro conjI allI impI)
  assume got: "(GetItem d, None) \<in> set (trace W)"
  show "\<exists>r. (Ping, r) \<in> set (trace W)"
  proof (use W in \<open>cases rule: run_cases\<close>)
    case eof
    with got show ?thesis by simp
  next
    case (cancelled response rest)
    with got show ?thesis by simp
  next
    case (reset w1 ok)
    from reset(7) show ?thesis
      by (cases rule: reset_database_cases) (use got reset in auto)
  qed
next
  fix i assume "i < length (trace W)" "lists_or_drops (fst (trace W ! i))"
  with run_guarded(1) [OF W]
  show "\<exists>j<i. trace W ! j = (Ping, None)"
    by (intro guarded_by_nth [where P = lists_or_drops]) simp_all
next
  fix i assume "i < length (trace W)" "fst (trace W ! i) = Ping"
  with run_guarded(2) [OF W]
  show "\<exists>j<i. trace W ! j = (MongoClient uri, None)"
    by (intro guarded_by_nth [where P = "\<lambda>c. c = Ping"]) simp_all
next
  assume down: "(Ping, Some m) \<in> set (trace W)"
  have "drops (trace W) = [] \<and> store W = st \<and>
        filter is_error_line (out W) = [Print (error_prefix @ m)] \<and>
        run_exit drv uri argv st inp = Exit 1 \<and>
        closes (trace W) = 1 \<and>
        filter is_closed_line (out W) = [Print closed_line]"
  proof (use W in \<open>cases rule: run_cases\<close>)
    case eof
    with down show ?thesis by simp
  next
    case (cancelled response rest)
    with down show ?thesis by simp
  next
    case (reset w1 ok)
    from reset(7) show ?thesis
      by (cases rule: reset_database_cases) (use down reset in auto)
  qed
  then show "drops (trace W) = []" "store W = st"
    "filter is_error_line (out W) = [Print (error_prefix @ m)]"
    "run_exit drv uri argv st inp = Exit 1"
    "closes (trace W) = 1"
    "filter is_closed_line (out W) = [Print closed_line]"
    by simp_all
qed

theorem ping_guards_the_database_witness:
  "run_healthy = run_world healthy sample_uri argv_force sample_store [] \<and>
   (GetItem sample_db, None) \<in> set (trace run_healthy) \<and>
   (\<exists>r. (Ping, r) \<in> set (trace run_healthy)) \<and>
   3 < length (trace run_healthy) \<and> lists_or_drops (fst (trace run_healthy ! 3)) \<and>
   (\<exists>j<3. trace run_healthy ! j = (Ping, None)) \<and>
   2 < length (trace run_healthy) \<and> fst (trace run_healthy ! 2) = Ping \<and>
   (\<exists>j<2. trace run_healthy ! j = (MongoClient sample_uri, None)) \<and>
   run_ping_down = run_world (fails_at 2) sample_uri argv_force sample_store [] \<and>
   (Ping, Some (ascii ''boom'')) \<in> set (trace run_ping_down) \<and>
   drops (trace run_ping_down) = [] \<and> store run_ping_down = sample_store \<and>
   filter is_error_line (out run_ping_down) = [Print (error_prefix @ ascii ''boom'')] \<and>
   run_exit (fails_at 2) sample_uri argv_force sample_store [] = Exit 1 \<and>
   closes (trace run_ping_down) = 1 \<and>
   filter is_closed_line (out run_ping_down) = [Print closed_line]"
proof -
  have W: "run_healthy = run_world healthy sample_uri argv_force sample_store []"
    by (simp add: run_healthy_def)
  have W': "run_ping_down = run_world (fails_at 2) sample_uri argv_force sample_store []"
    by (simp add: run_ping_down_def)
  have g: "(GetItem sample_db, None) \<in> set (trace run_healthy)"
    and i3: "3 < length (trace run_healthy)" "lists_or_drops (fst (trace run_healthy ! 3))"
    and i2: "2 < length (trace run_healthy)" "fst (trace run_healthy ! 2) = Ping"
    by (simp_all add: trace_run_healthy)
  have p: "(Ping, Some (ascii ''boom'')) \<in> set (trace run_ping_down)"
    by (simp add: trace_run_ping_down)
  from ping_guards_the_database [OF W, of sample_db "ascii ''boom''"]
    ping_guards_the_database [OF W', of sample_db "ascii ''boom''"] W W' g i3 i2 p
  show ?thesis by blast
qed

text \<open>
  C8. If the \<open>k\<close>-th drop of a run raised, then \<open>k\<close> is a position of the listing; the
  drops before it returned and it is the last drop invoked; the collections at the
  positions before \<open>k\<close> are gone from the database, and those after \<open>k\<close> are still there
  (unless an earlier position names them too); the error is printed by the handler of
  \<open>reset_database\<close>, which returns \<open>False\<close>; and the process exits with code 1.
\<close>

theorem drop_failure_stops_the_loop:
  assumes W: "W = run_world drv uri argv st inp"
    and d: "db_name_of uri = Inr d"
    and k: "k < length (drops (trace W))"
    and failed: "drops (trace W) ! k = (n, Some m)"
  shows "k < length (st d) \<and> n = st d ! k \<and>
         drops (trace W) = map (\<lambda>n. (n, None)) (take k (st d)) @ [(st d ! k, Some m)] \<and>
         (\<forall>x \<in> set (take k (st d)). x \<notin> set (store W d)) \<and>
         (\<forall>x \<in> set (drop (Suc k) (st d)). x \<notin> set (take k (st d)) \<longrightarrow> x \<in> set (store W d)) \<and>
         filter is_error_line (out W) = [Print (error_prefix @ m)] \<and>
         (\<exists>w1. store w1 = st \<and> trace w1 = [] \<and> reset_database drv uri w1 = (False, W)) \<and>
         run_exit drv uri argv st inp = Exit 1"
proof -
  from d have d': "tail_name uri = d" by (simp add: db_name_of_eq)
  show ?thesis
  proof (use W in \<open>cases rule: run_cases\<close>)
    case eof
    with k show ?thesis by simp
  next
    case (cancelled response rest)
    with k show ?thesis by simp
  next
    case (reset w1 ok)
    note r = reset(7)
    from r show ?thesis
    proof (cases rule: reset_database_cases)
      case (drop_raises k' m')
      let ?names = "st d"
      have dr: "drops (trace W) = map (\<lambda>n. (n, None)) (take k' ?names) @ [(?names ! k', Some m')]"
        using drop_raises reset d' by simp
      have k': "k' < length ?names" using drop_raises reset d' by simp
      have "k = k'"
      proof (rule ccontr)
        assume "k \<noteq> k'"
        with k dr k' have "k < k'" by simp
        with dr k' have "drops (trace W) ! k = (?names ! k, None)"
          by (simp add: nth_append)
        with failed show False by simp
      qed
      with failed dr k' have n: "n = ?names ! k" and m: "m' = m"
        by (simp_all add: nth_append)
      have stW: "store W d = filter (\<lambda>x. x \<notin> set (take k ?names)) ?names"
        using drop_raises reset d' \<open>k = k'\<close> by simp
      have gone: "\<forall>x \<in> set (take k ?names). x \<notin> set (store W d)"
        by (simp add: stW)
      have kept: "\<forall>x \<in> set (drop (Suc k) ?names). x \<notin> set (take k ?names) \<longrightarrow> x \<in> set (store W d)"
        by (auto simp: stW dest: in_set_dropD)
      have "\<exists>w1. store w1 = st \<and> trace w1 = [] \<and> reset_database drv uri w1 = (False, W)"
        using r reset drop_raises by (intro exI [of _ w1]) simp
      moreover have "filter is_error_line (out W) = [Print (error_prefix @ m)]"
        using drop_raises reset m by simp
      moreover have "run_exit drv uri argv st inp = Exit 1"
        using drop_raises reset by simp
      ultimately show ?thesis
        using k' \<open>k = k'\<close> n m dr gone kept by simp
    next
      case success
      with k failed reset d' have False by simp
      then show ?thesis ..
    qed (use k reset in simp_all)
  qed
qed

theorem drop_failure_stops_the_loop_witness:
  "run_drop_fails = run_world (fails_at 5) sample_uri argv_force sample_store [] \<and>
   db_name_of sample_uri = Inr sample_db \<and>
   1 < length (drops (trace run_drop_fails)) \<and>
   drops (trace run_drop_fails) ! 1 = (ascii ''courses'', Some (ascii ''boom'')) \<and>
   1 < length (sample_store sample_db) \<and> ascii ''courses'' = sample_store sample_db ! 1 \<and>
   drops (trace run_drop_fails) =
     map (\<lambda>n. (n, None)) (take 1 (sample_store sample_db)) @
     [(sample_store sample_db ! 1, Some (ascii ''boom''))] \<and>
   ascii ''users'' \<in> set (take 1 (sample_store sample_db)) \<and>
   ascii ''users'' \<notin> set (store run_drop_fails sample_db) \<and>
   ascii ''messages'' \<in> set (drop (Suc 1) (sample_store sample_db)) \<and>
   ascii ''messages'' \<notin> set (take 1 (sample_store sample_db)) \<and>
   ascii ''messages'' \<in> set (store run_drop_fails sample_db) \<and>
   filter is_error_line (out run_drop_fails) = [Print (error_prefix @ ascii ''boom'')] \<and>
   (\<exists>w1. store w1 = sample_store \<and> trace w1 = [] \<and>
         reset_database (fails_at 5) sample_uri w1 = (False, run_drop_fails)) \<and>
   run_exit (fails_at 5) sample_uri argv_force sample_store [] = Exit 1"
proof -
  have W: "run_drop_fails = run_world (fails_at 5) sample_uri argv_force sample_store []"
    by (simp add: run_drop_fails_def)
  have k: "1 < length (drops (trace run_drop_fails))"
    and f: "drops (trace run_drop_fails) ! 1 = (ascii ''courses'', Some (ascii ''boom''))"
    by (simp_all add: trace_run_drop_fails)
  have s: "ascii ''users'' \<in> set (take 1 (sample_store sample_db))"
    "ascii ''messages'' \<in> set (drop (Suc 1) (sample_store sample_db))"
    "ascii ''messages'' \<notin> set (take 1 (sample_store sample_db))"
    by (simp_all add: sample_store_def ascii_def)
  from drop_failure_stops_the_loop [OF W sample_db_name k f] W sample_db_name k f s
  show ?thesis by blast
qed

text \<open>
  C9. The claim says that the database name is the path segment of the URI without its
  query string. The code takes what follows the last \<open>/\<close> of the whole URI, so it
  differs where the query string holds a \<open>/\<close> (the name becomes a piece of the query)
  and where the URI has no path (the name becomes the host and port).
\<close>

theorem db_name_is_not_the_path_segment:
  "db_name_of (ascii ''mongodb://example.com/edu-resource?tls=true&tlsCAFile=/path/to/ca.pem'') =
     Inr (ascii ''ca.pem'') \<and>
   spec_db_name (ascii ''mongodb://example.com/edu-resource?tls=true&tlsCAFile=/path/to/ca.pem'') =
     ascii ''edu-resource'' \<and>
   db_name_of (ascii ''mongodb://localhost:27017'') = Inr (ascii ''localhost:27017'') \<and>
   spec_db_name (ascii ''mongodb://localhost:27017'') = []"
  by (simp add: db_name_of_eq tail_name_def spec_db_name_def ascii_def)

text \<open>
  C10. For every argument vector \<open>sys.argv\<close>, the prompt is skipped if and only if the
  literal \<open>'--force'\<close> or \<open>'-f'\<close> stands at some position of it; two argument vectors
  that agree on that give the same run, whatever else they hold; and a run ends with
  \<open>sys.exit(0)\<close>, \<open>sys.exit(1)\<close> or the \<open>EOFError\<close> of the prompt, never with an error
  about its arguments.
\<close>

theorem only_the_force_flag_is_read:
  "((filter is_prompt (out (run_world drv uri argv st inp)) = []) =
      (\<exists>i<length argv. argv ! i = ascii ''--force'' \<or> argv ! i = ascii ''-f'')) \<and>
   ((\<exists>i<length argv. argv ! i = ascii ''--force'' \<or> argv ! i = ascii ''-f'') =
    (\<exists>i<length argv'. argv' ! i = ascii ''--force'' \<or> argv' ! i = ascii ''-f'') \<longrightarrow>
      main drv uri argv w = main drv uri argv' w) \<and>
   run_exit drv uri argv st inp \<in> {Exit 0, Exit 1, Uncaught EOFError}"
  unfolding force_flag_nth [symmetric]
  by (simp only: prompt_iff_not_forced run_exit_cases) (simp add: main_def)

theorem only_the_force_flag_is_read_witness:
  "(\<exists>i<length argv_force. argv_force ! i = ascii ''--force'' \<or> argv_force ! i = ascii ''-f'') \<and>
   (\<exists>i<length [ascii ''x'', ascii ''--verbose'', ascii ''-f''].
       [ascii ''x'', ascii ''--verbose'', ascii ''-f''] ! i = ascii ''--force'' \<or>
       [ascii ''x'', ascii ''--verbose'', ascii ''-f''] ! i = ascii ''-f'') \<and>
   filter is_prompt (out (run_world healthy sample_uri argv_force sample_store [])) = [] \<and>
   main healthy sample_uri argv_force (start sample_store []) =
     main healthy sample_uri [ascii ''x'', ascii ''--verbose'', ascii ''-f'']
       (start sample_store []) \<and>
   run_exit healthy sample_uri argv_force sample_store [] \<in> {Exit 0, Exit 1, Uncaught EOFError}"
proof -
  have a: "\<exists>i<length argv_force. argv_force ! i = ascii ''--force'' \<or> argv_force ! i = ascii ''-f''"
    by (intro exI [of _ 1]) (simp add: argv_force_def)
  have b: "\<exists>i<length [ascii ''x'', ascii ''--verbose'', ascii ''-f''].
       [ascii ''x'', ascii ''--verbose'', ascii ''-f''] ! i = ascii ''--force'' \<or>
       [ascii ''x'', ascii ''--verbose'', ascii ''-f''] ! i = ascii ''-f''"
    by (intro exI [of _ 2]) simp
  from only_the_force_flag_is_read [of healthy sample_uri argv_force sample_store "[]"
      "[ascii ''x'', ascii ''--verbose'', ascii ''-f'']" "start sample_store []"] a b
  show ?thesis by blast
qed

end
